theory Spec2Isabelle
  imports Complex_Main "HOL-Library.Word"
begin

section \<open>Single-precision values\<close>

text \<open>
  The controller of \<^verbatim>\<open>main.cpp\<close> computes with C++ \<^verbatim>\<open>float\<close>. A value is modelled as
  a finite real or one of the IEEE specials. Finite results are kept exact: rounding to 24
  significant bits is not modelled, and no finite result of the program is large enough to
  overflow (the largest is below \<open>2^32 * 10^6\<close>). What is modelled is what the program's
  branches depend on: division by zero gives an infinity (or NaN for \<open>0/0\<close>), infinities
  and NaN propagate through the arithmetic, and every comparison with NaN is false. No
  negative zero occurs, since every divisor is converted from an unsigned integer.
\<close>

datatype fval = Fin real | PInf | NInf | NaN

definition inf_of :: "real \<Rightarrow> fval" where
  "inf_of x = (if 0 < x then PInf else if x < 0 then NInf else NaN)"

fun fmul :: "fval \<Rightarrow> fval \<Rightarrow> fval" where
  "fmul (Fin a) (Fin b) = Fin (a * b)"
| "fmul (Fin a) PInf = inf_of a"
| "fmul (Fin a) NInf = inf_of (- a)"
| "fmul PInf (Fin b) = inf_of b"
| "fmul NInf (Fin b) = inf_of (- b)"
| "fmul PInf PInf = PInf"
| "fmul PInf NInf = NInf"
| "fmul NInf PInf = NInf"
| "fmul NInf NInf = PInf"
| "fmul _ _ = NaN"

fun fdiv :: "fval \<Rightarrow> fval \<Rightarrow> fval" where
  "fdiv (Fin a) (Fin b) = (if b = 0 then inf_of a else Fin (a / b))"
| "fdiv (Fin a) PInf = Fin 0"
| "fdiv (Fin a) NInf = Fin 0"
| "fdiv PInf (Fin b) = (if b < 0 then NInf else PInf)"
| "fdiv NInf (Fin b) = (if b < 0 then PInf else NInf)"
| "fdiv _ _ = NaN"

fun fsub :: "fval \<Rightarrow> fval \<Rightarrow> fval" where
  "fsub (Fin a) (Fin b) = Fin (a - b)"
| "fsub (Fin a) PInf = NInf"
| "fsub (Fin a) NInf = PInf"
| "fsub PInf (Fin b) = PInf"
| "fsub NInf (Fin b) = NInf"
| "fsub PInf NInf = PInf"
| "fsub NInf PInf = NInf"
| "fsub _ _ = NaN"

fun fabs :: "fval \<Rightarrow> fval" where
  "fabs (Fin a) = Fin \<bar>a\<bar>"
| "fabs PInf = PInf"
| "fabs NInf = PInf"
| "fabs NaN = NaN"

fun fless :: "fval \<Rightarrow> fval \<Rightarrow> bool" where
  "fless (Fin a) (Fin b) = (a < b)"
| "fless (Fin a) PInf = True"
| "fless NInf (Fin b) = True"
| "fless NInf PInf = True"
| "fless _ _ = False"

text \<open>Conversion of an \<^verbatim>\<open>unsigned int\<close> operand to \<^verbatim>\<open>float\<close>.\<close>

definition u2f :: "32 word \<Rightarrow> fval" where
  "u2f w = Fin (real (unat w))"

text \<open>
  The cast \<^verbatim>\<open>(int)x\<close> of line 225, stored into an \<^verbatim>\<open>unsigned int\<close>: truncation
  towards zero when the truncated value fits an \<^verbatim>\<open>int\<close>. Otherwise (infinity, NaN, out of
  range) C++ leaves the result undefined; the model takes that result as the parameter
  \<open>junk\<close>, so that nothing is assumed about it.
\<close>

definition trunc :: "real \<Rightarrow> int" where
  "trunc r = (if 0 \<le> r then \<lfloor>r\<rfloor> else \<lceil>r\<rceil>)"

fun f2u :: "32 word \<Rightarrow> fval \<Rightarrow> 32 word" where
  "f2u junk (Fin r) =
     (if - 2147483649 < r \<and> r < 2147483648 then word_of_int (trunc r) else junk)"
| "f2u junk _ = junk"

section \<open>Constants of the program\<close>

definition MAX_OPCODES :: nat where
  "MAX_OPCODES = 80"

definition NOP :: "16 word" where
  "NOP = 0xBF00"

definition RET :: "16 word" where
  "RET = 0x4770"

definition MEASURING :: "32 word" where
  "MEASURING = 2"

definition TESTING :: "32 word" where
  "TESTING = 1"

definition BROADCASTING :: "32 word" where
  "BROADCASTING = 0"

text \<open>\<^verbatim>\<open>sample_rate\<close> and \<^verbatim>\<open>measure_limit\<close> are variables that are never assigned again.\<close>

definition sample_rate :: "32 word" where
  "sample_rate = 22050"

definition measure_limit :: "32 word" where
  "measure_limit = of_nat MAX_OPCODES - 1"

text \<open>The table of lines 104 to 115, as it is initialised.\<close>

definition frequencies_init :: "real list" where
  "frequencies_init =
    [531000, 540000, 549000, 558000, 567000, 576000, 585000, 594000,
     603000, 612000, 621000, 630000, 639000, 648000, 651000, 666000,
     675000, 684000, 693000, 702000, 711000, 720000, 729000, 738000,
     747000, 756000, 765000, 774000, 783000, 792000, 801000, 810000,
     819000, 828000, 837000, 846000, 855000, 864000, 873000, 882000,
     891000, 900000, 909000, 918000, 927000, 936000, 945000, 954000,
     963000, 972000, 981000, 981000, 989000, 990000, 999000, 1008000,
     1017000, 1026000, 1035000, 1044000, 1053000, 1062000, 1071000, 1080000,
     1089000, 1098000, 1107000, 1115000, 1116000, 1125000, 1134000, 1143000,
     1152000, 1161000, 1170000, 1179000, 1188000, 1197000, 1206000, 1215000]"

definition frequencies_n :: nat where
  "frequencies_n = length frequencies_init"

text \<open>The loop of lines 121 to 123: every entry loses \<^verbatim>\<open>sample_rate / 2.0f\<close>.\<close>

definition frequencies :: "fval list" where
  "frequencies = map (\<lambda>f. fsub (Fin f) (fdiv (u2f sample_rate) (Fin 2))) frequencies_init"

section \<open>State and inputs\<close>

text \<open>
  The local variables of \<^verbatim>\<open>main\<close> and the global \<^verbatim>\<open>opcodes\<close>. An element of
  \<^verbatim>\<open>measurements\<close> is \<open>None\<close> until it is assigned: the array is an uninitialised local.
  \<open>uninit_reads\<close> is not a variable of the program: it records, in order, the index of
  every read of an element of \<^verbatim>\<open>measurements\<close> that has not been assigned.
\<close>

record state =
  opcodes :: "16 word list"
  measurements :: "32 word option list"
  index :: "32 word"
  read_state :: "32 word"
  ready_state :: "32 word"
  periods :: "32 word"
  adc_value :: "32 word"
  start :: "32 word"
  end_us :: "32 word"
  best_index :: "32 word"
  best_frequency :: "32 word"
  desired :: fval
  best_diff :: fval
  freq :: fval
  diff :: fval
  uninit_reads :: "nat list"

text \<open>
  What one iteration of \<^verbatim>\<open>while(true)\<close> receives from outside: the two flags polled by
  the ADC state machine and the conversion result, the two readings of the microsecond
  timer, the content found in an unassigned element of \<^verbatim>\<open>measurements\<close>, and the result
  of an undefined conversion to \<^verbatim>\<open>int\<close>.
\<close>

record inputs =
  adc_active :: bool
  adc_coco :: bool
  adc_result :: "32 word"
  timer_start :: "32 word"
  timer_end :: "32 word"
  stack_junk :: "32 word"
  conv_junk :: "32 word"

text \<open>Lines 63 to 96: the state when \<^verbatim>\<open>while(true)\<close> is entered.\<close>

definition init :: state where
  "init = \<lparr> opcodes = (replicate MAX_OPCODES NOP)[0 := RET],
            measurements = replicate MAX_OPCODES None,
            index = 0,
            read_state = 0,
            ready_state = MEASURING,
            periods = 100000,
            adc_value = 0,
            start = 0,
            end_us = 0,
            best_index = 0,
            best_frequency = 0,
            desired = Fin 558000,
            best_diff = Fin 558000,
            freq = Fin 0,
            diff = Fin 0,
            uninit_reads = [] \<rparr>"

section \<open>The delay primitive (lines 11 to 12 and 68 to 72)\<close>

text \<open>
  \<^verbatim>\<open>exec(opcodes)\<close> calls the buffer at slot 0: the processor runs through no-op words
  until it meets the return word. The result is the number of no-op words executed, or
  \<open>None\<close> when control meets any other word or runs past the end of the buffer.
\<close>

fun exec :: "16 word list \<Rightarrow> nat option" where
  "exec [] = None"
| "exec (w # ws) =
     (if w = RET then Some 0 else if w = NOP then map_option Suc (exec ws) else None)"

section \<open>The ADC state machine (lines 137 to 154)\<close>

definition adc_step :: "inputs \<Rightarrow> state \<Rightarrow> state" where
  "adc_step inp s =
     (if read_state s = 0 then s\<lparr>read_state := 1\<rparr>
      else if read_state s = 1 then
        (if \<not> adc_active inp then s\<lparr>read_state := 2\<rparr> else s)
      else if read_state s = 2 then
        (if adc_coco inp then s\<lparr>read_state := 3\<rparr> else s)
      else if read_state s = 3 then s\<lparr>adc_value := adc_result inp, read_state := 0\<rparr>
      else s)"

section \<open>The broadcast state machine (lines 159 to 244)\<close>

text \<open>
  A burst (\<^verbatim>\<open>periods\<close> calls of \<^verbatim>\<open>transmit\<close>) writes to the DAC and runs the opcode
  buffer; it changes no variable of the program, so it leaves the state as it is. The LEDs
  and the serial report are not modelled. An array is a list, read with \<open>!\<close> and written
  with a list update, which say nothing of an access out of range; the properties below
  show that the indices of a run stay in range (\<^verbatim>\<open>index\<close> below 80, \<^verbatim>\<open>best_frequency\<close>
  below the length of the table).
\<close>

text \<open>The expression \<^verbatim>\<open>periods * 1000000.0f / m\<close> of lines 192, 206 and 224.\<close>

definition achieved_frequency :: "32 word \<Rightarrow> 32 word \<Rightarrow> fval" where
  "achieved_frequency p m = fdiv (fmul (u2f p) (Fin 1000000)) (u2f m)"

definition measurement_value :: "inputs \<Rightarrow> nat \<Rightarrow> state \<Rightarrow> 32 word" where
  "measurement_value inp i s =
     (case measurements s ! i of Some v \<Rightarrow> v | None \<Rightarrow> stack_junk inp)"

definition note_read :: "nat \<Rightarrow> state \<Rightarrow> state" where
  "note_read i s =
     (if measurements s ! i = None then s\<lparr>uninit_reads := uninit_reads s @ [i]\<rparr> else s)"

text \<open>
  Lines 192 to 198, the body of the two loops, reading \<^verbatim>\<open>measurements[i]\<close>. The
  operand of \<^verbatim>\<open>abs\<close> is a \<^verbatim>\<open>float\<close>, and \<^verbatim>\<open>abs\<close> is taken to be the overload for
  \<^verbatim>\<open>float\<close>.
\<close>

definition eval_body :: "inputs \<Rightarrow> nat \<Rightarrow> nat \<Rightarrow> state \<Rightarrow> state" where
  "eval_body inp i j s =
     (let f = achieved_frequency (periods s) (measurement_value inp i s);
          d = fabs (fsub f (frequencies ! j));
          s' = (note_read i s)\<lparr>freq := f, diff := d\<rparr>
      in if fless d (best_diff s)
         then s'\<lparr>best_diff := d, best_frequency := of_nat j, best_index := of_nat i\<rparr>
         else s')"

text \<open>Lines 184 to 200.\<close>

definition eval_pass :: "inputs \<Rightarrow> state \<Rightarrow> state" where
  "eval_pass inp s =
     fold (\<lambda>i. fold (eval_body inp i) [0..<frequencies_n]) [0..<unat (measure_limit - 1)] s"

text \<open>Lines 206 to 211, reading \<^verbatim>\<open>measurements[index]\<close>.\<close>

definition handoff :: "inputs \<Rightarrow> state \<Rightarrow> state" where
  "handoff inp s =
     (let i = unat (index s);
          f = achieved_frequency (periods s) (measurement_value inp i s)
      in (note_read i s)
           \<lparr>freq := f,
            periods := 250000,
            opcodes := ((opcodes s)[i := NOP])[unat (best_index s) := RET],
            index := best_index s,
            desired := frequencies ! unat (best_frequency s),
            ready_state := TESTING\<rparr>)"

text \<open>Lines 167 to 177: the timed burst, the record of its duration, the move of the return word.\<close>

definition measure_offset :: "inputs \<Rightarrow> state \<Rightarrow> state" where
  "measure_offset inp s =
     s\<lparr>start := timer_start inp,
       end_us := timer_end inp,
       measurements := (measurements s)[unat (index s) := Some (timer_end inp - timer_start inp)],
       opcodes := ((opcodes s)[unat (index s) := NOP])[unat (index s + 1) := RET],
       index := index s + 1\<rparr>"

text \<open>Lines 167 to 214.\<close>

definition measuring_step :: "inputs \<Rightarrow> state \<Rightarrow> state" where
  "measuring_step inp s =
     (let s' = measure_offset inp s
      in if index s' = measure_limit then handoff inp (eval_pass inp s') else s')"

text \<open>Line 225, as a function of the measured frequency.\<close>

definition final_periods :: "32 word \<Rightarrow> fval \<Rightarrow> 32 word" where
  "final_periods junk f = f2u junk (fdiv (fmul (Fin (1/2)) f) (u2f sample_rate))"

text \<open>Lines 219 to 236.\<close>

definition testing_step :: "inputs \<Rightarrow> state \<Rightarrow> state" where
  "testing_step inp s =
     (let f = achieved_frequency (periods s) (timer_end inp - timer_start inp)
      in s\<lparr>start := timer_start inp,
           end_us := timer_end inp,
           freq := f,
           periods := final_periods (conv_junk inp) f,
           ready_state := BROADCASTING\<rparr>)"

definition broadcast_step :: "inputs \<Rightarrow> state \<Rightarrow> state" where
  "broadcast_step inp s =
     (if ready_state s = MEASURING then measuring_step inp s
      else if ready_state s = TESTING then testing_step inp s
      else if ready_state s = BROADCASTING then s
      else s)"

text \<open>One iteration of \<^verbatim>\<open>while(true)\<close>, and the state after \<open>n\<close> iterations.\<close>

definition step :: "inputs \<Rightarrow> state \<Rightarrow> state" where
  "step inp s = broadcast_step inp (adc_step inp s)"

fun run :: "(nat \<Rightarrow> inputs) \<Rightarrow> nat \<Rightarrow> state" where
  "run env 0 = init"
| "run env (Suc n) = step (env n) (run env n)"

section \<open>Notions used in the statements and proofs\<close>

text \<open>
  The evaluation pass assigns \<^verbatim>\<open>freq\<close>, \<^verbatim>\<open>diff\<close> and the three \<^verbatim>\<open>best_\<close> variables,
  and nothing else of the program. \<open>same_ctl s s'\<close> says that \<open>s'\<close> agrees with \<open>s\<close> on
  every other variable.
\<close>

definition same_ctl :: "state \<Rightarrow> state \<Rightarrow> bool" where
  "same_ctl s s' \<longleftrightarrow>
     opcodes s' = opcodes s \<and> measurements s' = measurements s \<and> index s' = index s \<and>
     read_state s' = read_state s \<and> ready_state s' = ready_state s \<and>
     periods s' = periods s \<and> adc_value s' = adc_value s \<and> start s' = start s \<and>
     end_us s' = end_us s \<and> desired s' = desired s"

text \<open>
  The duration that iteration \<open>k + 1\<close> records: \<^verbatim>\<open>end - start\<close>, in unsigned 32-bit
  arithmetic.
\<close>

definition elapsed :: "(nat \<Rightarrow> inputs) \<Rightarrow> nat \<Rightarrow> 32 word" where
  "elapsed env k = timer_end (env k) - timer_start (env k)"

text \<open>
  The state before iteration \<open>n + 1\<close> while the controller measures: the return word is in
  slot \<open>n\<close>, the durations of the offsets below \<open>n\<close> are recorded and no other element
  of \<^verbatim>\<open>measurements\<close> is assigned, and the best match is still the seed.
\<close>

definition measuring_inv :: "(nat \<Rightarrow> inputs) \<Rightarrow> nat \<Rightarrow> state \<Rightarrow> bool" where
  "measuring_inv env n s \<longleftrightarrow>
     index s = of_nat n \<and> ready_state s = MEASURING \<and> periods s = 100000 \<and>
     opcodes s = (replicate MAX_OPCODES NOP)[n := RET] \<and>
     measurements s = map (\<lambda>k. Some (elapsed env k)) [0..<n] @ replicate (MAX_OPCODES - n) None \<and>
     best_index s = 0 \<and> best_frequency s = 0 \<and> best_diff s = Fin 558000 \<and>
     desired s = Fin 558000 \<and> uninit_reads s = []"

text \<open>
  The value that line 193 stores in \<^verbatim>\<open>diff\<close> for the offset \<open>fst p\<close> and the target
  \<open>snd p\<close>, in state \<open>s\<close>.
\<close>

definition pair_diff :: "inputs \<Rightarrow> state \<Rightarrow> nat \<times> nat \<Rightarrow> fval" where
  "pair_diff inp s p =
     fabs (fsub (achieved_frequency (periods s) (measurement_value inp (fst p) s))
                (frequencies ! snd p))"

text \<open>The body of the evaluation pass, run over a list of (offset, target) pairs.\<close>

definition scan :: "inputs \<Rightarrow> (nat \<times> nat) list \<Rightarrow> state \<Rightarrow> state" where
  "scan inp ps s = fold (\<lambda>p. eval_body inp (fst p) (snd p)) ps s"

text \<open>
  The two outcomes of a scan of \<open>ps\<close> from \<open>s\<close> to \<open>s'\<close>: the best match is kept as it
  was, or it is a pair \<open>b\<close> of \<open>ps\<close> that beats the best difference of \<open>s\<close>, the pairs
  before \<open>b\<close> being strictly worse than \<open>b\<close> and the pairs after it not better.
\<close>

definition kept :: "state \<Rightarrow> state \<Rightarrow> bool" where
  "kept s s' \<longleftrightarrow> best_diff s' = best_diff s \<and> best_index s' = best_index s \<and>
     best_frequency s' = best_frequency s"

definition chosen :: "(nat \<times> nat \<Rightarrow> fval) \<Rightarrow> (nat \<times> nat) list \<Rightarrow> state \<Rightarrow> state \<Rightarrow> bool" where
  "chosen d ps s s' \<longleftrightarrow>
     (\<exists>xs b ys. ps = xs @ b # ys \<and> best_diff s' = d b \<and> best_index s' = of_nat (fst b) \<and>
        best_frequency s' = of_nat (snd b) \<and> fless (d b) (best_diff s) \<and>
        (\<forall>x\<in>set xs. fless (d b) (d x)) \<and> (\<forall>y\<in>set ys. \<not> fless (d y) (d b)))"

text \<open>The pairs in the order in which the two loops of lines 184 and 185 visit them.\<close>

definition scan_order :: "(nat \<times> nat) list" where
  "scan_order = List.product [0..<unat (measure_limit - 1)] [0..<frequencies_n]"


text \<open>
  The state in which the evaluation pass starts: the 79th iteration has run the ADC state
  machine and lines 167 to 177.
\<close>

definition pre_eval :: "(nat \<Rightarrow> inputs) \<Rightarrow> state" where
  "pre_eval env = measure_offset (env 78) (adc_step (env 78) (run env 78))"

text \<open>
  The difference that the evaluation pass computes for offset \<open>i\<close> and target \<open>j\<close>:
  during the pass \<^verbatim>\<open>periods\<close> is 100000 and \<^verbatim>\<open>measurements[i]\<close> is the duration of the
  burst of iteration \<open>i + 1\<close>.
\<close>

definition candidate_diff :: "(nat \<Rightarrow> inputs) \<Rightarrow> nat \<Rightarrow> nat \<Rightarrow> fval" where
  "candidate_diff env i j =
     fabs (fsub (achieved_frequency 100000 (timer_end (env i) - timer_start (env i)))
                (frequencies ! j))"

text \<open>The state in which the evaluation pass ends.\<close>

definition evaluated :: "(nat \<Rightarrow> inputs) \<Rightarrow> state" where
  "evaluated env = eval_pass (env 78) (pre_eval env)"

text \<open>
  Concrete runs. \<open>timed_env e\<close> is the environment in which the burst of iteration
  \<open>n + 1\<close> takes \<open>e n\<close> microseconds, the ADC is never found active, its conversion is
  always found complete, and every conversion result is 1234.
\<close>

definition timed_env :: "(nat \<Rightarrow> 32 word) \<Rightarrow> nat \<Rightarrow> inputs" where
  "timed_env e n = \<lparr> adc_active = False, adc_coco = True, adc_result = 1234,
                      timer_start = 0, timer_end = e n, stack_junk = 0, conv_junk = 0 \<rparr>"

text \<open>Every burst takes 100000 microseconds.\<close>

definition env_steady :: "nat \<Rightarrow> inputs" where
  "env_steady = timed_env (\<lambda>n. 100000)"

text \<open>Every burst takes no time at all.\<close>

definition env_stalled :: "nat \<Rightarrow> inputs" where
  "env_stalled = timed_env (\<lambda>n. 0)"

text \<open>Every burst takes 50000 microseconds.\<close>

definition env_fast :: "nat \<Rightarrow> inputs" where
  "env_fast = timed_env (\<lambda>n. 50000)"

text \<open>Every burst takes 93000 microseconds.\<close>

definition env_near_seed :: "nat \<Rightarrow> inputs" where
  "env_near_seed = timed_env (\<lambda>n. 93000)"


section \<open>Properties\<close>

subsection \<open>What the evaluation pass and the ADC state machine leave alone\<close>

lemma fold_preserves:
  assumes "\<And>x s. P s \<Longrightarrow> P (f x s)" and "P s"
  shows "P (fold f xs s)"
  using assms(2) by (induction xs arbitrary: s) (auto intro: assms(1))

lemma measure_limit_val: "measure_limit = 79"
  by (simp add: measure_limit_def MAX_OPCODES_def)

lemma frequencies_n_val: "frequencies_n = 80"
  by (simp add: frequencies_n_def frequencies_init_def)

lemma same_ctl_refl: "same_ctl s s"
  by (simp add: same_ctl_def)

lemma note_read_ctl: "same_ctl s0 s \<Longrightarrow> same_ctl s0 (note_read i s)"
  by (simp add: same_ctl_def note_read_def)

lemma eval_body_ctl: "same_ctl s0 s \<Longrightarrow> same_ctl s0 (eval_body inp i j s)"
  using note_read_ctl[of s0 s i]
  by (simp add: same_ctl_def eval_body_def Let_def)

lemma eval_pass_ctl: "same_ctl s (eval_pass inp s)"
proof -
  have inner: "same_ctl s t \<Longrightarrow> same_ctl s (fold (eval_body inp i) js t)" for i js t
    by (rule fold_preserves[where P = "same_ctl s"]) (rule eval_body_ctl)
  show ?thesis
    unfolding eval_pass_def
    by (rule fold_preserves[where P = "same_ctl s"]) (rule inner, assumption, rule same_ctl_refl)
qed

lemma handoff_adc:
  "read_state (handoff inp s) = read_state s" "adc_value (handoff inp s) = adc_value s"
  by (simp_all add: handoff_def Let_def note_read_def)

lemma measure_offset_adc:
  "read_state (measure_offset inp s) = read_state s" "adc_value (measure_offset inp s) = adc_value s"
  by (simp_all add: measure_offset_def)

lemma measuring_step_adc:
  "read_state (measuring_step inp s) = read_state s" "adc_value (measuring_step inp s) = adc_value s"
  using eval_pass_ctl[of "measure_offset inp s" inp]
  by (simp_all add: measuring_step_def Let_def handoff_adc measure_offset_adc same_ctl_def)

lemma testing_step_adc:
  "read_state (testing_step inp s) = read_state s" "adc_value (testing_step inp s) = adc_value s"
  by (simp_all add: testing_step_def Let_def)

lemma broadcast_step_adc:
  "read_state (broadcast_step inp s) = read_state s" "adc_value (broadcast_step inp s) = adc_value s"
  by (simp_all add: broadcast_step_def measuring_step_adc testing_step_adc)

lemma step_adc:
  "read_state (step inp s) = read_state (adc_step inp s)"
  "adc_value (step inp s) = adc_value (adc_step inp s)"
  by (simp_all add: step_def broadcast_step_adc)

subsection \<open>The measuring iterations\<close>

lemma adc_step_fields:
  "opcodes (adc_step inp s) = opcodes s"
  "measurements (adc_step inp s) = measurements s"
  "index (adc_step inp s) = index s"
  "ready_state (adc_step inp s) = ready_state s"
  "periods (adc_step inp s) = periods s"
  "best_index (adc_step inp s) = best_index s"
  "best_frequency (adc_step inp s) = best_frequency s"
  "best_diff (adc_step inp s) = best_diff s"
  "desired (adc_step inp s) = desired s"
  "uninit_reads (adc_step inp s) = uninit_reads s"
  by (simp_all add: adc_step_def)

lemma adc_step_measuring_inv: "measuring_inv env n (adc_step inp s) = measuring_inv env n s"
  by (simp add: measuring_inv_def adc_step_fields)

lemma unat_of_nat32: "n < 4294967296 \<Longrightarrow> unat (of_nat n :: 32 word) = n"
  by (simp add: unat_of_nat)

lemma replicate_update_same: "(replicate k x)[i := x] = replicate k x"
  by (induction k arbitrary: i) (simp_all split: nat.splits)

lemma measurements_advance:
  assumes "n < m"
  shows "(map (\<lambda>k. Some (f k)) [0..<n] @ replicate (m - n) None)[n := Some (f n)]
         = map (\<lambda>k. Some (f k)) [0..<n] @ Some (f n) # replicate (m - Suc n) None"
proof -
  from assms obtain d where d: "m - n = Suc d" "m - Suc n = d"
    by (cases "m - n") auto
  show ?thesis by (simp add: d list_update_append)
qed

lemma measure_offset_inv:
  assumes "measuring_inv env n s" "n < 79"
  shows "measuring_inv env (Suc n) (measure_offset (env n) s)"
proof -
  have u: "unat (of_nat n :: 32 word) = n" "unat (of_nat n + 1 :: 32 word) = Suc n"
    using assms(2) unat_of_nat32[of n] unat_of_nat32[of "Suc n"] by (simp_all add: add.commute)
  have m: "n < MAX_OPCODES" using assms(2) by (simp add: MAX_OPCODES_def)
  show ?thesis
    using assms(1)
    by (simp add: measuring_inv_def measure_offset_def u replicate_update_same
        measurements_advance[OF m, of "elapsed env", unfolded elapsed_def] elapsed_def)
qed

lemma init_inv: "measuring_inv env 0 init"
  by (simp add: measuring_inv_def init_def)

lemma of_nat_neq_limit: "n < 79 \<Longrightarrow> (of_nat n :: 32 word) \<noteq> measure_limit"
  using unat_of_nat32[of n] by (auto simp: measure_limit_val)

lemma step_measuring_inv:
  assumes "measuring_inv env n s" "n < 78"
  shows "measuring_inv env (Suc n) (step (env n) s)"
proof -
  let ?t = "adc_step (env n) s"
  have a: "measuring_inv env n ?t" using assms(1) by (simp add: adc_step_measuring_inv)
  have b: "measuring_inv env (Suc n) (measure_offset (env n) ?t)"
    using measure_offset_inv[OF a] assms(2) by simp
  have c: "index (measure_offset (env n) ?t) \<noteq> measure_limit"
    using b of_nat_neq_limit[of "Suc n"] assms(2) by (simp add: measuring_inv_def)
  have "ready_state ?t = MEASURING" using a by (simp add: measuring_inv_def)
  then show ?thesis using b c
    by (simp add: step_def broadcast_step_def measuring_step_def Let_def)
qed

lemma run_measuring_inv: "n \<le> 78 \<Longrightarrow> measuring_inv env n (run env n)"
proof (induction n)
  case 0
  show ?case by (simp add: init_inv)
next
  case (Suc n)
  then show ?case using step_measuring_inv[of env n "run env n"] by simp
qed

subsection \<open>The scan of a list of pairs\<close>

lemma fless_trans: "fless a b \<Longrightarrow> fless b c \<Longrightarrow> fless a c"
  by (cases a; cases b; cases c) auto

lemma fless_cotrans: "y \<noteq> NaN \<Longrightarrow> \<not> fless y b \<Longrightarrow> fless p b \<Longrightarrow> fless p y"
  by (cases y; cases b; cases p) auto


lemma pair_diff_ctl: "same_ctl s0 s \<Longrightarrow> pair_diff inp s p = pair_diff inp s0 p"
  by (simp add: pair_diff_def same_ctl_def measurement_value_def)

lemma note_read_best:
  "best_diff (note_read i s) = best_diff s"
  "best_index (note_read i s) = best_index s"
  "best_frequency (note_read i s) = best_frequency s"
  by (simp_all add: note_read_def)

lemma eval_body_best:
  "best_diff (eval_body inp i j s) =
     (if fless (pair_diff inp s (i, j)) (best_diff s) then pair_diff inp s (i, j) else best_diff s)"
  "best_index (eval_body inp i j s) =
     (if fless (pair_diff inp s (i, j)) (best_diff s) then of_nat i else best_index s)"
  "best_frequency (eval_body inp i j s) =
     (if fless (pair_diff inp s (i, j)) (best_diff s) then of_nat j else best_frequency s)"
  by (simp_all add: eval_body_def Let_def pair_diff_def note_read_best)

lemma scan_ctl: "same_ctl s0 s \<Longrightarrow> same_ctl s0 (scan inp ps s)"
  unfolding scan_def
  by (rule fold_preserves[where P = "same_ctl s0"]) (rule eval_body_ctl)

lemma scan_snoc: "scan inp (ps @ [p]) s = eval_body inp (fst p) (snd p) (scan inp ps s)"
  by (simp add: scan_def)

lemma scan_result:
  assumes "\<forall>p\<in>set ps. pair_diff inp s p \<noteq> NaN"
  shows "((\<forall>p\<in>set ps. \<not> fless (pair_diff inp s p) (best_diff s)) \<and> kept s (scan inp ps s))
         \<or> chosen (pair_diff inp s) ps s (scan inp ps s)"
  using assms
proof (induction ps rule: rev_induct)
  case Nil
  show ?case by (simp add: scan_def kept_def)
next
  case (snoc p ps)
  let ?d = "pair_diff inp s"
  let ?m = "scan inp ps s"
  let ?e = "scan inp (ps @ [p]) s"
  have ctl: "same_ctl s ?m" by (rule scan_ctl) (rule same_ctl_refl)
  have dm: "pair_diff inp ?m p = ?d p"
    by (rule pair_diff_ctl[OF ctl])
  have nn: "\<forall>q\<in>set ps. ?d q \<noteq> NaN" "?d p \<noteq> NaN" using snoc.prems by simp_all
  have e: "best_diff ?e = (if fless (?d p) (best_diff ?m) then ?d p else best_diff ?m)"
    "best_index ?e = (if fless (?d p) (best_diff ?m) then of_nat (fst p) else best_index ?m)"
    "best_frequency ?e = (if fless (?d p) (best_diff ?m) then of_nat (snd p) else best_frequency ?m)"
    by (simp_all add: scan_snoc eval_body_best dm)
  from snoc.IH[OF nn(1)] consider
    (A) "\<forall>q\<in>set ps. \<not> fless (?d q) (best_diff s)" "kept s ?m"
    | (B) "chosen ?d ps s ?m" by blast
  then show ?case
  proof cases
    case A
    show ?thesis
    proof (cases "fless (?d p) (best_diff s)")
      case True
      have "\<forall>x\<in>set ps. fless (?d p) (?d x)"
        using A(1) nn(1) True fless_cotrans by blast
      then have "chosen ?d (ps @ [p]) s ?e"
        unfolding chosen_def using True A(2) e
        by (intro exI[of _ ps] exI[of _ p] exI[of _ "[]"]) (simp add: kept_def)
      then show ?thesis by simp
    next
      case False
      then have "kept s ?e" using A(2) e by (simp add: kept_def)
      then show ?thesis using A(1) False by simp
    qed
  next
    case B
    then obtain xs b ys where b: "ps = xs @ b # ys" "best_diff ?m = ?d b"
      "best_index ?m = of_nat (fst b)" "best_frequency ?m = of_nat (snd b)"
      "fless (?d b) (best_diff s)" "\<forall>x\<in>set xs. fless (?d b) (?d x)"
      "\<forall>y\<in>set ys. \<not> fless (?d y) (?d b)"
      unfolding chosen_def by blast
    show ?thesis
    proof (cases "fless (?d p) (?d b)")
      case True
      have 1: "\<forall>x\<in>set xs. fless (?d p) (?d x)" using b(6) True fless_trans by blast
      have 2: "\<forall>y\<in>set ys. fless (?d p) (?d y)"
      proof
        fix y assume y: "y \<in> set ys"
        then have "y \<in> set ps" unfolding b(1) by simp
        then have "?d y \<noteq> NaN" using nn(1) by blast
        moreover have "\<not> fless (?d y) (?d b)" using b(7) y by blast
        ultimately show "fless (?d p) (?d y)" using True by (rule fless_cotrans)
      qed
      have 3: "fless (?d p) (best_diff s)" using True b(5) fless_trans by blast
      have "chosen ?d (ps @ [p]) s ?e"
        unfolding chosen_def using True 1 2 3 e b(1,2)
        by (intro exI[of _ ps] exI[of _ p] exI[of _ "[]"]) auto
      then show ?thesis by simp
    next
      case False
      have "chosen ?d (ps @ [p]) s ?e"
        unfolding chosen_def using False e b
        by (intro exI[of _ xs] exI[of _ b] exI[of _ "ys @ [p]"]) auto
      then show ?thesis by simp
    qed
  qed
qed

subsection \<open>The order of the scan, the table, the achieved frequency\<close>

lemma fold_nested_product:
  "fold (\<lambda>i. fold (g i) ys) xs s = fold (\<lambda>p. g (fst p) (snd p)) (List.product xs ys) s"
proof (induction xs arbitrary: s)
  case Nil
  show ?case by simp
next
  case (Cons x xs)
  have "(\<lambda>p. g (fst p) (snd p)) \<circ> Pair x = g x" by (rule ext) simp
  then show ?case using Cons.IH by (simp add: fold_map)
qed

lemma eval_pass_scan: "eval_pass inp s = scan inp scan_order s"
  unfolding eval_pass_def scan_def scan_order_def by (rule fold_nested_product)



lemma set_scan_order: "set scan_order = {p. fst p < 78 \<and> snd p < 80}"
  by (auto simp: scan_order_def measure_limit_val frequencies_n_val)


lemma u2f_sample_rate: "u2f sample_rate = Fin 22050"
  by (simp add: u2f_def sample_rate_def)

lemma frequencies_nth: "j < 80 \<Longrightarrow> frequencies ! j = Fin (frequencies_init ! j - 11025)"
proof -
  assume "j < 80"
  then have "j < length frequencies_init" by (simp add: frequencies_init_def)
  then show ?thesis by (simp add: frequencies_def u2f_sample_rate)
qed

lemma achieved_frequency_eq:
  "p \<noteq> 0 \<Longrightarrow> achieved_frequency p m =
     (if m = 0 then PInf else Fin (real (unat p) * 1000000 / real (unat m)))"
proof -
  assume "p \<noteq> 0"
  then have "unat p \<noteq> 0" by (simp add: unat_eq_0)
  then have "0 < unat p" by simp
  then have "(0::real) < unsigned p" by (metis of_nat_unat of_nat_0_less_iff)
  then show ?thesis
    by (simp add: achieved_frequency_def u2f_def inf_of_def unsigned_eq_0_iff)
qed

lemma pair_diff_not_nan:
  assumes "periods s \<noteq> 0" "snd p < 80"
  shows "pair_diff inp s p \<noteq> NaN"
  using assms by (simp add: pair_diff_def achieved_frequency_eq frequencies_nth)

subsection \<open>The 79th iteration\<close>

lemma pre_eval_inv: "measuring_inv env 79 (pre_eval env)"
proof -
  have "measuring_inv env 78 (adc_step (env 78) (run env 78))"
    using run_measuring_inv[of 78 env] by (simp add: adc_step_measuring_inv)
  from measure_offset_inv[OF this] show ?thesis by (simp add: pre_eval_def)
qed

lemma run_79: "run env 79 = handoff (env 78) (eval_pass (env 78) (pre_eval env))"
proof -
  have n: "(79::nat) = Suc 78" by simp
  have r: "ready_state (adc_step (env 78) (run env 78)) = MEASURING"
    using run_measuring_inv[of 78 env] by (simp add: measuring_inv_def adc_step_fields)
  have i: "index (pre_eval env) = measure_limit"
    using pre_eval_inv[of env] by (simp add: measuring_inv_def measure_limit_val)
  show ?thesis
    unfolding n run.simps step_def broadcast_step_def measuring_step_def Let_def
    using r i by (simp add: pre_eval_def)
qed

lemma pre_eval_measurement:
  assumes "i < 79"
  shows "measurements (pre_eval env) ! i = Some (elapsed env i)"
proof -
  have "measurements (pre_eval env) =
        map (\<lambda>k. Some (elapsed env k)) [0..<79] @ replicate (MAX_OPCODES - 79) None"
    using pre_eval_inv[of env] by (simp add: measuring_inv_def)
  then show ?thesis using assms by (simp add: nth_append)
qed

lemma pre_eval_unwritten: "measurements (pre_eval env) ! 79 = None"
proof -
  have "measurements (pre_eval env) =
        map (\<lambda>k. Some (elapsed env k)) [0..<79] @ replicate (MAX_OPCODES - 79) None"
    using pre_eval_inv[of env] by (simp add: measuring_inv_def)
  then show ?thesis by (simp add: nth_append MAX_OPCODES_def)
qed

lemma pre_eval_pair_diff:
  assumes "fst p < 79"
  shows "pair_diff inp (pre_eval env) p =
         fabs (fsub (achieved_frequency 100000 (elapsed env (fst p))) (frequencies ! snd p))"
proof -
  have "periods (pre_eval env) = 100000"
    using pre_eval_inv[of env] by (simp add: measuring_inv_def)
  then show ?thesis
    by (simp add: pair_diff_def measurement_value_def pre_eval_measurement[OF assms])
qed

lemma fold_preserves_set:
  assumes "\<And>x s. x \<in> set xs \<Longrightarrow> P s \<Longrightarrow> P (f x s)" and "P s"
  shows "P (fold f xs s)"
  using assms
proof (induction xs arbitrary: s)
  case Nil
  then show ?case by simp
next
  case (Cons x xs)
  have "P (f x s)" using Cons.prems by simp
  then show ?case using Cons.IH[of "f x s"] Cons.prems(1) by simp
qed

lemma eval_body_reads:
  assumes "measurements s ! i \<noteq> None"
  shows "uninit_reads (eval_body inp i j s) = uninit_reads s"
  using assms by (simp add: eval_body_def Let_def note_read_def)

lemma scan_reads:
  assumes "\<forall>p\<in>set ps. measurements s ! fst p \<noteq> None"
  shows "uninit_reads (scan inp ps s) = uninit_reads s"
proof -
  let ?P = "\<lambda>t::state. measurements t = measurements s \<and> uninit_reads t = uninit_reads s"
  have "?P (scan inp ps s)"
    unfolding scan_def
  proof (rule fold_preserves_set[where P = ?P])
    fix p t assume "p \<in> set ps" "?P t"
    then show "?P (eval_body inp (fst p) (snd p) t)"
      using assms eval_body_ctl[OF same_ctl_refl, of t inp "fst p" "snd p"]
        eval_body_reads[of t "fst p" inp "snd p"]
      by (simp add: same_ctl_def)
  qed simp
  then show ?thesis by simp
qed

lemma eval_pass_reads: "uninit_reads (eval_pass inp (pre_eval env)) = []"
proof -
  have "\<forall>p\<in>set scan_order. measurements (pre_eval env) ! fst p \<noteq> None"
    by (simp add: set_scan_order pre_eval_measurement)
  from scan_reads[OF this] show ?thesis
    using pre_eval_inv[of env] by (simp add: eval_pass_scan measuring_inv_def)
qed

subsection \<open>The outcome of the evaluation pass\<close>

lemma pre_eval_candidate:
  "fst p < 79 \<Longrightarrow> pair_diff inp (pre_eval env) p = candidate_diff env (fst p) (snd p)"
  by (simp add: pre_eval_pair_diff candidate_diff_def elapsed_def)

lemma handoff_fields:
  "best_diff (handoff inp s) = best_diff s"
  "best_index (handoff inp s) = best_index s"
  "best_frequency (handoff inp s) = best_frequency s"
  "index (handoff inp s) = best_index s"
  "periods (handoff inp s) = 250000"
  "ready_state (handoff inp s) = TESTING"
  "desired (handoff inp s) = frequencies ! unat (best_frequency s)"
  "opcodes (handoff inp s) = ((opcodes s)[unat (index s) := NOP])[unat (best_index s) := RET]"
  "measurements (handoff inp s) = measurements s"
  "freq (handoff inp s) = achieved_frequency (periods s) (measurement_value inp (unat (index s)) s)"
  "uninit_reads (handoff inp s) = uninit_reads (note_read (unat (index s)) s)"
  by (simp_all add: handoff_def Let_def note_read_def)

lemma evaluated_ctl: "same_ctl (pre_eval env) (evaluated env)"
  unfolding evaluated_def by (rule eval_pass_ctl)

lemma evaluated_cases:
  "((\<forall>p\<in>set scan_order. \<not> fless (candidate_diff env (fst p) (snd p)) (Fin 558000)) \<and>
     best_diff (evaluated env) = Fin 558000 \<and> best_index (evaluated env) = 0 \<and>
     best_frequency (evaluated env) = 0)
   \<or> (\<exists>xs b ys. scan_order = xs @ b # ys \<and>
         best_diff (evaluated env) = candidate_diff env (fst b) (snd b) \<and>
         best_index (evaluated env) = of_nat (fst b) \<and>
         best_frequency (evaluated env) = of_nat (snd b) \<and>
         fless (candidate_diff env (fst b) (snd b)) (Fin 558000) \<and>
         (\<forall>x\<in>set xs. fless (candidate_diff env (fst b) (snd b)) (candidate_diff env (fst x) (snd x))) \<and>
         (\<forall>y\<in>set ys. \<not> fless (candidate_diff env (fst y) (snd y)) (candidate_diff env (fst b) (snd b))))"
proof -
  let ?s = "pre_eval env"
  let ?inp = "env 78"
  have inv: "measuring_inv env 79 ?s" by (rule pre_eval_inv)
  then have seed: "best_diff ?s = Fin 558000" "best_index ?s = 0" "best_frequency ?s = 0"
    "periods ?s \<noteq> 0"
    by (simp_all add: measuring_inv_def)
  have d: "\<forall>p\<in>set scan_order. pair_diff ?inp ?s p = candidate_diff env (fst p) (snd p)"
    by (simp add: set_scan_order pre_eval_candidate)
  have nn: "\<forall>p\<in>set scan_order. pair_diff ?inp ?s p \<noteq> NaN"
    using pair_diff_not_nan[OF seed(4)] by (simp add: set_scan_order)
  from scan_result[OF nn] consider
    (A) "\<forall>p\<in>set scan_order. \<not> fless (pair_diff ?inp ?s p) (best_diff ?s)"
        "kept ?s (scan ?inp scan_order ?s)"
    | (B) "chosen (pair_diff ?inp ?s) scan_order ?s (scan ?inp scan_order ?s)" by blast
  then show ?thesis
  proof cases
    case A
    then show ?thesis using d seed
      by (simp add: kept_def evaluated_def eval_pass_scan)
  next
    case B
    then obtain xs b ys where b: "scan_order = xs @ b # ys"
      "best_diff (evaluated env) = pair_diff ?inp ?s b"
      "best_index (evaluated env) = of_nat (fst b)"
      "best_frequency (evaluated env) = of_nat (snd b)"
      "fless (pair_diff ?inp ?s b) (best_diff ?s)"
      "\<forall>x\<in>set xs. fless (pair_diff ?inp ?s b) (pair_diff ?inp ?s x)"
      "\<forall>y\<in>set ys. \<not> fless (pair_diff ?inp ?s y) (pair_diff ?inp ?s b)"
      unfolding chosen_def evaluated_def eval_pass_scan by blast
    have in_b: "b \<in> set scan_order" "set xs \<subseteq> set scan_order" "set ys \<subseteq> set scan_order"
      unfolding b(1) by auto
    have dd: "pair_diff ?inp ?s p = candidate_diff env (fst p) (snd p)"
      if "p \<in> set scan_order" for p using d that by blast
    have 1: "best_diff (evaluated env) = candidate_diff env (fst b) (snd b)"
      using b(2) dd[OF in_b(1)] by simp
    have 2: "fless (candidate_diff env (fst b) (snd b)) (Fin 558000)"
      using b(5) dd[OF in_b(1)] seed(1) by simp
    have 3: "fless (candidate_diff env (fst b) (snd b)) (candidate_diff env (fst x) (snd x))"
      if "x \<in> set xs" for x
    proof -
      have "x \<in> set scan_order" using that in_b(2) by blast
      then show ?thesis using b(6) that dd[OF in_b(1)] dd[of x] by auto
    qed
    have 4: "\<not> fless (candidate_diff env (fst y) (snd y)) (candidate_diff env (fst b) (snd b))"
      if "y \<in> set ys" for y
    proof -
      have "y \<in> set scan_order" using that in_b(3) by blast
      then show ?thesis using b(7) that dd[OF in_b(1)] dd[of y] by auto
    qed
    have "best_diff (evaluated env) = candidate_diff env (fst b) (snd b)"
      "fless (candidate_diff env (fst b) (snd b)) (Fin 558000)"
      "\<forall>x\<in>set xs. fless (candidate_diff env (fst b) (snd b)) (candidate_diff env (fst x) (snd x))"
      "\<forall>y\<in>set ys. \<not> fless (candidate_diff env (fst y) (snd y)) (candidate_diff env (fst b) (snd b))"
      using 1 2 3 4 by blast+
    then show ?thesis using b(1,3,4) by blast
  qed
qed

subsection \<open>The hand-over and the iterations after it\<close>

lemma run_79_evaluated: "run env 79 = handoff (env 78) (evaluated env)"
  by (simp add: run_79 evaluated_def)

lemma evaluated_bounds:
  "unat (best_index (evaluated env)) < 78" "unat (best_frequency (evaluated env)) < 80"
proof -
  from evaluated_cases[of env] consider
    (A) "best_index (evaluated env) = 0" "best_frequency (evaluated env) = 0"
    | (B) b where "b \<in> set scan_order" "best_index (evaluated env) = of_nat (fst b)"
        "best_frequency (evaluated env) = of_nat (snd b)"
    by (metis in_set_conv_decomp)
  then have "unat (best_index (evaluated env)) < 78 \<and> unat (best_frequency (evaluated env)) < 80"
  proof cases
    case A
    then show ?thesis by simp
  next
    case B
    then have "fst b < 78" "snd b < 80" by (simp_all add: set_scan_order)
    then show ?thesis using B(2,3) unat_of_nat32[of "fst b"] unat_of_nat32[of "snd b"] by simp
  qed
  then show "unat (best_index (evaluated env)) < 78" "unat (best_frequency (evaluated env)) < 80"
    by simp_all
qed

lemma evaluated_fields:
  "opcodes (evaluated env) = (replicate MAX_OPCODES NOP)[79 := RET]"
  "index (evaluated env) = 79"
  "periods (evaluated env) = 100000"
  "measurements (evaluated env) = measurements (pre_eval env)"
  "uninit_reads (evaluated env) = []"
  using evaluated_ctl[of env] pre_eval_inv[of env] eval_pass_reads[of "env 78" env]
  by (simp_all add: same_ctl_def measuring_inv_def evaluated_def)

lemma run_79_fields:
  "ready_state (run env 79) = TESTING"
  "periods (run env 79) = 250000"
  "index (run env 79) = best_index (evaluated env)"
  "opcodes (run env 79) = (replicate MAX_OPCODES NOP)[unat (best_index (evaluated env)) := RET]"
  "best_index (run env 79) = best_index (evaluated env)"
  "best_frequency (run env 79) = best_frequency (evaluated env)"
  "best_diff (run env 79) = best_diff (evaluated env)"
  "desired (run env 79) = frequencies ! unat (best_frequency (evaluated env))"
  "uninit_reads (run env 79) = [79]"
  "measurements (run env 79) ! 79 = None"
  by (simp_all add: run_79_evaluated handoff_fields evaluated_fields replicate_update_same
      note_read_def pre_eval_unwritten)

lemma testing_step_fields:
  "ready_state (testing_step inp s) = BROADCASTING"
  "opcodes (testing_step inp s) = opcodes s"
  "index (testing_step inp s) = index s"
  "freq (testing_step inp s) = achieved_frequency (periods s) (timer_end inp - timer_start inp)"
  "periods (testing_step inp s) =
     final_periods (conv_junk inp) (achieved_frequency (periods s) (timer_end inp - timer_start inp))"
  "uninit_reads (testing_step inp s) = uninit_reads s"
  "best_index (testing_step inp s) = best_index s"
  by (simp_all add: testing_step_def Let_def)

lemma phase_values: "MEASURING \<noteq> TESTING" "TESTING \<noteq> BROADCASTING" "MEASURING \<noteq> BROADCASTING"
  by (simp_all add: MEASURING_def TESTING_def BROADCASTING_def)

lemma run_80:
  "run env 80 = testing_step (env 79) (adc_step (env 79) (run env 79))"
proof -
  have n: "(80::nat) = Suc 79" by simp
  show ?thesis
    unfolding n run.simps step_def broadcast_step_def
    using phase_values by (simp add: adc_step_fields run_79_fields)
qed

lemma run_80_fields:
  "ready_state (run env 80) = BROADCASTING"
  "opcodes (run env 80) = opcodes (run env 79)"
  "index (run env 80) = index (run env 79)"
  "uninit_reads (run env 80) = uninit_reads (run env 79)"
  "freq (run env 80) = achieved_frequency 250000 (timer_end (env 79) - timer_start (env 79))"
  "periods (run env 80) = final_periods (conv_junk (env 79)) (freq (run env 80))"
  by (simp_all add: run_80 testing_step_fields adc_step_fields run_79_fields)

lemma step_broadcasting:
  assumes "ready_state s = BROADCASTING"
  shows "ready_state (step inp s) = BROADCASTING" "opcodes (step inp s) = opcodes s"
    "index (step inp s) = index s" "uninit_reads (step inp s) = uninit_reads s"
  using assms phase_values
  by (simp_all add: step_def broadcast_step_def adc_step_fields)

lemma run_broadcasting:
  "ready_state (run env (80 + k)) = BROADCASTING \<and>
   opcodes (run env (80 + k)) = opcodes (run env 79) \<and>
   index (run env (80 + k)) = index (run env 79) \<and>
   uninit_reads (run env (80 + k)) = uninit_reads (run env 79)"
proof (induction k)
  case 0
  show ?case by (simp add: run_80_fields)
next
  case (Suc k)
  have n: "80 + Suc k = Suc (80 + k)" by simp
  show ?case
    unfolding n run.simps
    using Suc step_broadcasting[of "run env (80 + k)" "env (80 + k)"] by simp
qed

lemma controller_phase:
  "ready_state (run env n) =
     (if n < 79 then MEASURING else if n = 79 then TESTING else BROADCASTING)"
proof -
  have "n \<le> 78 \<or> n = 79 \<or> (\<exists>k. n = 80 + k)" by presburger
  then consider "n \<le> 78" | "n = 79" | k where "n = 80 + k" by blast
  then show ?thesis
  proof cases
    case 1
    then show ?thesis using run_measuring_inv[of n env] by (simp add: measuring_inv_def)
  next
    case 2
    then show ?thesis by (simp add: run_79_fields)
  next
    case 3
    then show ?thesis using run_broadcasting[of env k] by simp
  qed
qed

subsection \<open>The phases of the controller and the opcode buffer\<close>

lemma measure_offset_fields:
  "index (measure_offset inp s) = index s + 1"
  "ready_state (measure_offset inp s) = ready_state s"
  by (simp_all add: measure_offset_def)

lemma measuring_step_ready:
  "ready_state (measuring_step inp s) =
     (if index s + 1 = measure_limit then TESTING else ready_state s)"
  using eval_pass_ctl[of "measure_offset inp s" inp]
  by (simp add: measuring_step_def Let_def handoff_fields measure_offset_fields same_ctl_def)

lemma step_ready:
  "ready_state (step inp s) =
     (if ready_state s = MEASURING then (if index s + 1 = measure_limit then TESTING else MEASURING)
      else if ready_state s = TESTING then BROADCASTING
      else ready_state s)"
  by (simp add: step_def broadcast_step_def adc_step_fields measuring_step_ready
      testing_step_fields)

text \<open>
  Claim C7. The controller starts in \<open>MEASURING\<close>. One iteration leaves \<open>MEASURING\<close> only
  for \<open>TESTING\<close>, and exactly when the incremented \<^verbatim>\<open>index\<close> equals \<^verbatim>\<open>measure_limit\<close>;
  it leaves \<open>TESTING\<close> for \<open>BROADCASTING\<close> unconditionally; it never leaves
  \<open>BROADCASTING\<close>, and no iteration enters \<open>MEASURING\<close>. Whatever the inputs, the
  controller is in \<open>MEASURING\<close> before each of the first 79 iterations, in \<open>TESTING\<close>
  before the 80th only, and in \<open>BROADCASTING\<close> from then on.
\<close>

theorem controller_phases:
  "ready_state (run env 0) = MEASURING \<and>
   ready_state (step inp s) =
     (if ready_state s = MEASURING then (if index s + 1 = measure_limit then TESTING else MEASURING)
      else if ready_state s = TESTING then BROADCASTING
      else ready_state s) \<and>
   ready_state (run env n) =
     (if n < 79 then MEASURING else if n = 79 then TESTING else BROADCASTING) \<and>
   index (run env 78) + 1 = measure_limit \<and>
   MEASURING \<noteq> TESTING \<and> TESTING \<noteq> BROADCASTING \<and> MEASURING \<noteq> BROADCASTING"
proof -
  have "index (run env 78) + 1 = measure_limit"
    using run_measuring_inv[of 78 env] by (simp add: measuring_inv_def measure_limit_val)
  moreover have "ready_state (run env 0) = MEASURING" by (simp add: init_def)
  ultimately show ?thesis
    using step_ready[of inp s] controller_phase[of env n] phase_values by simp
qed

text \<open>
  Claim C6. The burst count is 100000 while the controller measures and 250000 when it
  enters \<open>TESTING\<close>: the count used by the timed burst of \<open>TESTING\<close> is larger than the
  one used during \<open>MEASURING\<close>, not smaller.
\<close>

theorem testing_burst_count:
  "periods (run env 0) = 100000 \<and> periods (run env 78) = 100000 \<and>
   ready_state (run env 79) = TESTING \<and> periods (run env 79) = 250000 \<and>
   periods (run env 78) < periods (run env 79)"
proof -
  have "periods (run env 78) = 100000"
    using run_measuring_inv[of 78 env] by (simp add: measuring_inv_def)
  then show ?thesis by (simp add: run_79_fields init_def)
qed

text \<open>
  Claim C10. When the controller leaves \<open>MEASURING\<close>, line 206 reads
  \<^verbatim>\<open>measurements[index]\<close> with \<^verbatim>\<open>index\<close> equal to \<^verbatim>\<open>measure_limit\<close> (79): an element
  that no iteration has assigned. It is the only such read; the evaluation pass reads
  assigned elements only.
\<close>

theorem handoff_reads_unwritten_element:
  "uninit_reads (run env 78) = [] \<and>
   uninit_reads (run env 79) = [unat measure_limit] \<and>
   measurements (run env 79) ! unat measure_limit = None \<and>
   unat measure_limit < length (measurements (run env 79))"
proof -
  have "uninit_reads (run env 78) = []"
    using run_measuring_inv[of 78 env] by (simp add: measuring_inv_def)
  moreover have "length (measurements (run env 79)) = 80"
    using pre_eval_inv[of env]
    by (simp add: run_79_evaluated handoff_fields evaluated_fields measuring_inv_def MAX_OPCODES_def)
  ultimately show ?thesis by (simp add: run_79_fields measure_limit_val)
qed

lemma count_replicate: "count_list (replicate k x) x = k \<and> (x \<noteq> y \<longrightarrow> count_list (replicate k x) y = 0)"
  by (induction k) simp_all

lemma count_single:
  "i < k \<Longrightarrow> x \<noteq> y \<Longrightarrow>
     count_list ((replicate k x)[i := y]) y = 1 \<and> count_list ((replicate k x)[i := y]) x = k - 1"
proof (induction k arbitrary: i)
  case 0
  then show ?case by simp
next
  case (Suc k)
  show ?case
  proof (cases i)
    case 0
    then show ?thesis using Suc.prems(2) count_replicate[of k x y] by simp
  next
    case (Suc i')
    then have "i' < k" using Suc.prems(1) by simp
    from Suc.IH[OF this Suc.prems(2)] show ?thesis using Suc Suc.prems(2) \<open>i' < k\<close> by auto
  qed
qed

lemma exec_single: "i < k \<Longrightarrow> exec ((replicate k NOP)[i := RET]) = Some i"
proof (induction k arbitrary: i)
  case 0
  then show ?case by simp
next
  case (Suc k)
  have ne: "NOP \<noteq> RET" by (simp add: NOP_def RET_def)
  show ?case
  proof (cases i)
    case 0
    then show ?thesis by simp
  next
    case (Suc i')
    then have "i' < k" using Suc.prems by simp
    from Suc.IH[OF this] show ?thesis using Suc ne by simp
  qed
qed

lemma run_index:
  "index (run env n) = (if n < 79 then of_nat n else best_index (run env 79))"
proof -
  have "n \<le> 78 \<or> n = 79 \<or> (\<exists>k. n = 80 + k)" by presburger
  then consider "n \<le> 78" | "n = 79" | k where "n = 80 + k" by blast
  then show ?thesis
  proof cases
    case 1
    then show ?thesis using run_measuring_inv[of n env] by (simp add: measuring_inv_def)
  next
    case 2
    then show ?thesis by (simp add: run_79_fields)
  next
    case 3
    then show ?thesis using run_broadcasting[of env k] by (simp add: run_79_fields)
  qed
qed

lemma run_opcodes:
  "opcodes (run env n) = (replicate MAX_OPCODES NOP)[unat (index (run env n)) := RET] \<and>
   unat (index (run env n)) < MAX_OPCODES"
proof -
  have "n \<le> 78 \<or> n = 79 \<or> (\<exists>k. n = 80 + k)" by presburger
  then consider "n \<le> 78" | "n = 79" | k where "n = 80 + k" by blast
  then show ?thesis
  proof cases
    case 1
    then show ?thesis
      using run_measuring_inv[of n env] unat_of_nat32[of n]
      by (simp add: measuring_inv_def MAX_OPCODES_def)
  next
    case 2
    then show ?thesis using evaluated_bounds(1)[of env] by (simp add: run_79_fields MAX_OPCODES_def)
  next
    case 3
    then show ?thesis
      using run_broadcasting[of env k] evaluated_bounds(1)[of env]
      by (simp add: run_79_fields MAX_OPCODES_def)
  qed
qed

text \<open>
  Claim C8. Before every iteration of the control loop the opcode buffer has 80 slots, the
  slot \<^verbatim>\<open>index\<close> holds the return word and the other 79 hold the no-op word, so that
  running the buffer returns after \<^verbatim>\<open>index\<close> no-op words. The slot
  is \<open>n\<close> before iteration \<open>n + 1\<close> of the first 79 iterations, each measurement moving it
  forward by one, and from then on it is the offset \<^verbatim>\<open>best_index\<close> chosen by the
  evaluation pass. The ADC state machine and the \<open>TESTING\<close> step change neither the buffer
  nor \<^verbatim>\<open>index\<close>.
\<close>

theorem opcode_buffer_invariant:
  "opcodes (run env n) = (replicate MAX_OPCODES NOP)[unat (index (run env n)) := RET] \<and>
   unat (index (run env n)) < MAX_OPCODES \<and>
   length (opcodes (run env n)) = 80 \<and>
   count_list (opcodes (run env n)) RET = 1 \<and>
   count_list (opcodes (run env n)) NOP = 79 \<and>
   exec (opcodes (run env n)) = Some (unat (index (run env n))) \<and>
   index (run env n) = (if n < 79 then of_nat n else best_index (run env 79)) \<and>
   index (measure_offset inp s) = index s + 1 \<and>
   opcodes (adc_step inp s) = opcodes s \<and> index (adc_step inp s) = index s \<and>
   opcodes (testing_step inp s) = opcodes s \<and> index (testing_step inp s) = index s"
proof -
  let ?i = "unat (index (run env n))"
  have o: "opcodes (run env n) = (replicate MAX_OPCODES NOP)[?i := RET]" "?i < MAX_OPCODES"
    using run_opcodes[of env n] by simp_all
  have ne: "NOP \<noteq> RET" by (simp add: NOP_def RET_def)
  have c: "count_list (opcodes (run env n)) RET = 1" "count_list (opcodes (run env n)) NOP = 79"
    using count_single[OF o(2) ne] o(1) by (simp_all add: MAX_OPCODES_def)
  have l: "length (opcodes (run env n)) = 80"
    using o(1) by (simp add: MAX_OPCODES_def)
  have e: "exec (opcodes (run env n)) = Some ?i"
    using exec_single[OF o(2)] o(1) by simp
  show ?thesis
    using o c l e run_index[of env n]
    by (simp add: measure_offset_fields adc_step_fields testing_step_fields)
qed

subsection \<open>The ADC state machine\<close>

lemma step_read_state:
  "read_state (step inp s) =
     (if read_state s = 0 then 1
      else if read_state s = 1 then (if adc_active inp then 1 else 2)
      else if read_state s = 2 then (if adc_coco inp then 3 else 2)
      else if read_state s = 3 then 0
      else read_state s)"
  by (simp add: step_adc adc_step_def)

lemma step_adc_value:
  "adc_value (step inp s) = (if read_state s = 3 then adc_result inp else adc_value s)"
  by (simp add: step_adc adc_step_def)

lemma run_read_state: "read_state (run env n) \<in> {0, 1, 2, 3}"
proof (induction n)
  case 0
  show ?case by (simp add: init_def)
next
  case (Suc n)
  then show ?case by (auto simp: step_read_state)
qed

lemma run_read_state_bound: "unat (read_state (run env n)) < 4"
  using run_read_state[of env n] by auto

lemma run_not_latched:
  "(\<forall>k<n. read_state (run env k) \<noteq> 3) \<Longrightarrow> adc_value (run env n) = 0"
proof (induction n)
  case 0
  show ?case by (simp add: init_def)
next
  case (Suc n)
  then have "adc_value (run env n) = 0" "read_state (run env n) \<noteq> 3" by simp_all
  then show ?case by (simp add: step_adc_value)
qed

text \<open>
  Claim C9. One iteration of the control loop moves the ADC state machine by at most one
  transition, and only along \<open>0 \<rightarrow> 1 \<rightarrow> 2 \<rightarrow> 3 \<rightarrow> 0\<close>: from 0 always to 1, from 1 to 2 when
  the ADC is not active, from 2 to 3 when the conversion is complete, from 3 always to 0.
  \<^verbatim>\<open>adc_value\<close> is assigned in state 3 and in no other state; it is 0 as long as no
  iteration has started in state 3. The state is always one of the four.
\<close>

theorem sample_acquisition_cycle:
  "read_state (run env 0) = 0 \<and> adc_value (run env 0) = 0 \<and>
   read_state (step inp s) =
     (if read_state s = 0 then 1
      else if read_state s = 1 then (if adc_active inp then 1 else 2)
      else if read_state s = 2 then (if adc_coco inp then 3 else 2)
      else if read_state s = 3 then 0
      else read_state s) \<and>
   adc_value (step inp s) = (if read_state s = 3 then adc_result inp else adc_value s) \<and>
   unat (read_state (run env n)) < 4 \<and>
   ((\<forall>k<n. read_state (run env k) \<noteq> 3) \<longrightarrow> adc_value (run env n) = 0)"
  using step_read_state[of inp s] step_adc_value[of inp s] run_read_state_bound[of env n]
    run_not_latched[of n env]
  by (simp add: init_def)

theorem sample_acquisition_cycle_witness:
  "read_state (run env_steady 0) = 0 \<and> read_state (run env_steady 1) = 1 \<and>
   read_state (run env_steady 2) = 2 \<and> adc_value (run env_steady 3) = 0 \<and>
   read_state (run env_steady 3) = 3 \<and>
   read_state (run env_steady 4) = 0 \<and> adc_value (run env_steady 4) = 1234"
proof -
  let ?e = env_steady
  have inp: "\<not> adc_active (?e k)" "adc_coco (?e k)" "adc_result (?e k) = 1234" for k
    by (simp_all add: env_steady_def timed_env_def)
  have n: "(1::nat) = Suc 0" "(2::nat) = Suc 1" "(3::nat) = Suc 2" "(4::nat) = Suc 3"
    by simp_all
  have r0: "read_state (run ?e 0) = 0"
    using sample_acquisition_cycle[of ?e "?e 0" "run ?e 0" 0] by simp
  have r1: "read_state (run ?e 1) = 1"
    unfolding n(1) run.simps
    using sample_acquisition_cycle[of ?e "?e 0" "run ?e 0" 0] r0 by simp
  have r2: "read_state (run ?e 2) = 2"
    unfolding n(2) run.simps
    using sample_acquisition_cycle[of ?e "?e 1" "run ?e 1" 0] r1 inp by simp
  have r3: "read_state (run ?e 3) = 3"
    unfolding n(3) run.simps
    using sample_acquisition_cycle[of ?e "?e 2" "run ?e 2" 0] r2 inp by simp
  have r4: "read_state (run ?e 4) = 0" "adc_value (run ?e 4) = 1234"
    unfolding n(4) run.simps
    using sample_acquisition_cycle[of ?e "?e 3" "run ?e 3" 0] r3 inp by simp_all
  have h: "\<forall>k<3. read_state (run ?e k) \<noteq> 3"
  proof (intro allI impI)
    fix k :: nat assume "k < 3"
    then have "k = 0 \<or> k = 1 \<or> k = 2" by presburger
    then show "read_state (run ?e k) \<noteq> 3" using r0 r1 r2 by (elim disjE) simp_all
  qed
  have "adc_value (run ?e 3) = 0"
    using sample_acquisition_cycle[of ?e "?e 0" "run ?e 0" 3] h by blast
  then show ?thesis using r0 r1 r2 r3 r4 by simp
qed




subsection \<open>The repeat count of TESTING\<close>




subsection \<open>A burst that takes no time\<close>

lemma note_read_other:
  "periods (note_read i s) = periods s" "measurements (note_read i s) = measurements s"
  "diff (note_read i s) = diff s" "freq (note_read i s) = freq s"
  by (simp_all add: note_read_def)

lemma eval_body_freq_diff:
  "freq (eval_body inp i j s) = achieved_frequency (periods s) (measurement_value inp i s)"
  "diff (eval_body inp i j s) = pair_diff inp s (i, j)"
  by (simp_all add: eval_body_def Let_def pair_diff_def)

lemma fless_PInf: "\<not> fless PInf x"
  by (cases x) simp_all

lemma achieved_frequency_zero: "p \<noteq> 0 \<Longrightarrow> achieved_frequency p 0 = PInf"
  by (simp add: achieved_frequency_eq)

lemma pair_diff_zero:
  assumes "periods s \<noteq> 0" "measurements s ! i = Some 0" "j < frequencies_n"
  shows "pair_diff inp s (i, j) = PInf"
  using assms
  by (simp add: pair_diff_def measurement_value_def achieved_frequency_zero frequencies_nth
      frequencies_n_val)

lemma eval_body_zero:
  assumes "periods s \<noteq> 0" "measurements s ! i = Some 0" "j < frequencies_n"
  shows "freq (eval_body inp i j s) = PInf" "diff (eval_body inp i j s) = PInf"
    "best_diff (eval_body inp i j s) = best_diff s"
    "best_index (eval_body inp i j s) = best_index s"
    "best_frequency (eval_body inp i j s) = best_frequency s"
  using assms pair_diff_zero[OF assms, of inp]
  by (simp_all add: eval_body_freq_diff eval_body_best fless_PInf measurement_value_def
      achieved_frequency_zero)

lemma final_periods_PInf: "final_periods junk PInf = junk"
  by (simp add: final_periods_def u2f_sample_rate inf_of_def)

lemma testing_step_zero:
  assumes "periods s \<noteq> 0" "timer_end inp = timer_start inp"
  shows "freq (testing_step inp s) = PInf" "periods (testing_step inp s) = conv_junk inp"
    "ready_state (testing_step inp s) = BROADCASTING"
  using assms
  by (simp_all add: testing_step_fields achieved_frequency_zero final_periods_PInf)

lemma run_80_zero:
  assumes "timer_end (env 79) = timer_start (env 79)"
  shows "freq (run env 80) = PInf" "periods (run env 80) = conv_junk (env 79)"
    "ready_state (run env 80) = BROADCASTING"
  using assms
  by (simp_all add: run_80_fields achieved_frequency_zero final_periods_PInf)

text \<open>
  Claim C4, as amended. No zero elapsed time is guarded against: the division is carried
  out and gives \<open>+\<infinity>\<close>. In the evaluation pass the difference of such an offset to any
  target is \<open>+\<infinity>\<close>, which is smaller than nothing, so the pair is not recorded. In
  \<open>TESTING\<close> the frequency becomes \<open>+\<infinity>\<close>, \<^verbatim>\<open>periods\<close> receives the result of a
  conversion that C++ leaves undefined, and the controller goes on to \<open>BROADCASTING\<close>.
\<close>

theorem zero_elapsed_time_unguarded:
  "(p \<noteq> 0 \<longrightarrow> achieved_frequency p 0 = PInf) \<and>
   (periods s \<noteq> 0 \<and> measurements s ! i = Some 0 \<and> j < frequencies_n \<longrightarrow>
      freq (eval_body inp i j s) = PInf \<and> diff (eval_body inp i j s) = PInf \<and>
      best_diff (eval_body inp i j s) = best_diff s \<and>
      best_index (eval_body inp i j s) = best_index s \<and>
      best_frequency (eval_body inp i j s) = best_frequency s) \<and>
   (periods s \<noteq> 0 \<and> timer_end inp = timer_start inp \<longrightarrow>
      freq (testing_step inp s) = PInf \<and> periods (testing_step inp s) = conv_junk inp \<and>
      ready_state (testing_step inp s) = BROADCASTING) \<and>
   (timer_end (env 79) = timer_start (env 79) \<longrightarrow>
      freq (run env 80) = PInf \<and> periods (run env 80) = conv_junk (env 79) \<and>
      ready_state (run env 80) = BROADCASTING)"
proof (intro conjI impI)
  assume "p \<noteq> 0"
  then show "achieved_frequency p 0 = PInf" by (rule achieved_frequency_zero)
next
  assume a: "periods s \<noteq> 0 \<and> measurements s ! i = Some 0 \<and> j < frequencies_n"
  then have b: "periods s \<noteq> 0" "measurements s ! i = Some 0" "j < frequencies_n" by simp_all
  show "freq (eval_body inp i j s) = PInf" by (rule eval_body_zero(1)[OF b])
  show "diff (eval_body inp i j s) = PInf" by (rule eval_body_zero(2)[OF b])
  show "best_diff (eval_body inp i j s) = best_diff s" by (rule eval_body_zero(3)[OF b])
  show "best_index (eval_body inp i j s) = best_index s" by (rule eval_body_zero(4)[OF b])
  show "best_frequency (eval_body inp i j s) = best_frequency s" by (rule eval_body_zero(5)[OF b])
next
  assume a: "periods s \<noteq> 0 \<and> timer_end inp = timer_start inp"
  then have b: "periods s \<noteq> 0" "timer_end inp = timer_start inp" by simp_all
  show "freq (testing_step inp s) = PInf" by (rule testing_step_zero(1)[OF b])
  show "periods (testing_step inp s) = conv_junk inp" by (rule testing_step_zero(2)[OF b])
  show "ready_state (testing_step inp s) = BROADCASTING" by (rule testing_step_zero(3)[OF b])
next
  assume a: "timer_end (env 79) = timer_start (env 79)"
  show "freq (run env 80) = PInf" using a by (rule run_80_zero(1)[of env])
  show "periods (run env 80) = conv_junk (env 79)" using a by (rule run_80_zero(2)[of env])
  show "ready_state (run env 80) = BROADCASTING" using a by (rule run_80_zero(3)[of env])
qed

theorem zero_elapsed_time_unguarded_witness:
  "(100000 :: 32 word) \<noteq> 0 \<and> achieved_frequency 100000 0 = PInf \<and>
   periods (measure_offset (env_stalled 0) init) \<noteq> 0 \<and>
   measurements (measure_offset (env_stalled 0) init) ! 0 = Some 0 \<and>
   0 < frequencies_n \<and>
   diff (eval_body (env_stalled 0) 0 0 (measure_offset (env_stalled 0) init)) = PInf \<and>
   best_diff (eval_body (env_stalled 0) 0 0 (measure_offset (env_stalled 0) init)) = Fin 558000 \<and>
   timer_end (env_stalled 0) = timer_start (env_stalled 0) \<and>
   freq (testing_step (env_stalled 0) (measure_offset (env_stalled 0) init)) = PInf \<and>
   timer_end (env_stalled 79) = timer_start (env_stalled 79) \<and>
   freq (run env_stalled 80) = PInf \<and> ready_state (run env_stalled 80) = BROADCASTING"
proof -
  let ?inp = "env_stalled 0"
  let ?s = "measure_offset ?inp init"
  have a: "(100000 :: 32 word) \<noteq> 0" by simp
  have b: "periods ?s \<noteq> 0 \<and> measurements ?s ! 0 = Some 0 \<and> 0 < frequencies_n"
    by (simp add: measure_offset_def init_def env_stalled_def timed_env_def MAX_OPCODES_def
        frequencies_n_val)
  have c: "periods ?s \<noteq> 0 \<and> timer_end ?inp = timer_start ?inp"
    by (simp add: measure_offset_def init_def env_stalled_def timed_env_def)
  have d: "timer_end (env_stalled 79) = timer_start (env_stalled 79)"
    by (simp add: env_stalled_def timed_env_def)
  have e: "best_diff ?s = Fin 558000" by (simp add: measure_offset_def init_def)
  note T = zero_elapsed_time_unguarded[of 100000 ?s 0 0 ?inp env_stalled]
  have "achieved_frequency 100000 0 = PInf" using T a by blast
  moreover have "diff (eval_body ?inp 0 0 ?s) = PInf \<and> best_diff (eval_body ?inp 0 0 ?s) = best_diff ?s"
    using T b by blast
  moreover have "freq (testing_step ?inp ?s) = PInf" using T c by blast
  moreover have "freq (run env_stalled 80) = PInf \<and> ready_state (run env_stalled 80) = BROADCASTING"
    using T d by blast
  ultimately show ?thesis using a b c d e by simp
qed

lemma product_last:
  "List.product (xs @ [x]) (ys @ [y]) = (List.product xs (ys @ [y]) @ map (Pair x) ys) @ [(x, y)]"
  by (induction xs) simp_all

lemma scan_order_last: "\<exists>ps. scan_order = ps @ [(77, 79)]"
proof -
  have n: "(78::nat) = Suc 77" "(80::nat) = Suc 79" by simp_all
  have "[0..<78] = [0..<77] @ [77]" "[0..<80] = [0..<79] @ [79]"
    unfolding n by (rule upt_Suc_append, simp)+
  then show ?thesis
    unfolding scan_order_def measure_limit_val frequencies_n_val
    using product_last[of "[0..<77]" 77 "[0..<79]" 79] by simp
qed

lemma evaluated_diff: "diff (evaluated env) = candidate_diff env 77 79"
proof -
  obtain ps where ps: "scan_order = ps @ [(77, 79)]" using scan_order_last by blast
  have ctl: "same_ctl (pre_eval env) (scan (env 78) ps (pre_eval env))"
    by (rule scan_ctl) (rule same_ctl_refl)
  have "diff (evaluated env) = pair_diff (env 78) (scan (env 78) ps (pre_eval env)) (77, 79)"
    by (simp add: evaluated_def eval_pass_scan ps scan_snoc eval_body_freq_diff)
  also have "\<dots> = pair_diff (env 78) (pre_eval env) (77, 79)" by (rule pair_diff_ctl[OF ctl])
  also have "\<dots> = candidate_diff env 77 79" using pre_eval_candidate[of "(77, 79)" "env 78" env] by simp
  finally show ?thesis .
qed

lemma handoff_diff: "diff (handoff inp s) = diff s"
  by (simp add: handoff_def Let_def note_read_other)

text \<open>
  Claim C4 fails as stated: when every burst takes zero microseconds, the evaluation pass
  ends with the difference \<open>+\<infinity>\<close> and hands over to \<open>TESTING\<close>, and \<open>TESTING\<close> stores
  the frequency \<open>+\<infinity>\<close> and hands over to \<open>BROADCASTING\<close>.
\<close>

theorem zero_elapsed_time_counterexample:
  "timer_end (env_stalled 77) - timer_start (env_stalled 77) = 0 \<and>
   diff (run env_stalled 79) = PInf \<and> ready_state (run env_stalled 79) = TESTING \<and>
   timer_end (env_stalled 79) - timer_start (env_stalled 79) = 0 \<and>
   freq (run env_stalled 80) = PInf \<and> ready_state (run env_stalled 80) = BROADCASTING"
proof -
  have z: "timer_end (env_stalled k) - timer_start (env_stalled k) = 0" for k
    by (simp add: env_stalled_def timed_env_def)
  have "candidate_diff env_stalled 77 79 = PInf"
    by (simp add: candidate_diff_def z achieved_frequency_zero frequencies_nth)
  then have "diff (run env_stalled 79) = PInf"
    by (simp add: run_79_evaluated handoff_diff evaluated_diff)
  moreover have "freq (run env_stalled 80) = PInf" using z[of 79] by (simp add: run_80_zero)
  ultimately show ?thesis using z by (simp add: run_79_fields run_80_fields)
qed

subsection \<open>No pair below the seed\<close>

lemma table_range: "j < 80 \<Longrightarrow> 531000 \<le> frequencies_init ! j \<and> frequencies_init ! j \<le> 1215000"
proof -
  have "list_all (\<lambda>f. 531000 \<le> f \<and> f \<le> 1215000) frequencies_init"
    by (simp add: frequencies_init_def)
  moreover assume "j < 80"
  ultimately show ?thesis by (simp add: list_all_length frequencies_init_def)
qed

lemma table_entries:
  "frequencies ! 0 = Fin 519975" "frequencies ! 3 = Fin 546975"
  "frequencies ! 55 = Fin 996975" "frequencies ! 79 = Fin 1203975"
  by (simp_all add: frequencies_nth) (simp_all add: frequencies_init_def)

lemma unat_measure_limit: "unat (measure_limit - 1) = 78" "unat measure_limit = 79"
  by (simp_all add: measure_limit_val)

lemma timed_env_elapsed: "timer_end (timed_env e k) - timer_start (timed_env e k) = e k"
  by (simp add: timed_env_def)

lemma candidate_diff_Fin:
  assumes "timer_end (env i) - timer_start (env i) = m" "m \<noteq> 0" "j < 80"
  shows "candidate_diff env i j =
         Fin \<bar>100000 * 1000000 / real (unat m) - (frequencies_init ! j - 11025)\<bar>"
  using assms by (simp add: candidate_diff_def achieved_frequency_eq frequencies_nth)

lemma candidate_diff_fast:
  assumes "j < 80"
  shows "candidate_diff env_fast i j = Fin (2011025 - frequencies_init ! j)"
proof -
  have "candidate_diff env_fast i j =
        Fin \<bar>100000 * 1000000 / real (unat (50000::32 word)) - (frequencies_init ! j - 11025)\<bar>"
    by (rule candidate_diff_Fin[OF _ _ assms]) (simp_all add: env_fast_def timed_env_elapsed)
  then show ?thesis using table_range[OF assms] by simp
qed

lemma fast_never_beats_seed:
  "\<forall>i<unat (measure_limit - 1). \<forall>j<frequencies_n.
     \<not> fless (candidate_diff env_fast i j) (Fin 558000)"
proof (intro allI impI)
  fix i j assume "j < frequencies_n"
  then have j: "j < 80" by (simp add: frequencies_n_val)
  show "\<not> fless (candidate_diff env_fast i j) (Fin 558000)"
    using table_range[OF j] by (simp add: candidate_diff_fast[OF j])
qed

lemma no_match_result:
  assumes "\<forall>i<unat (measure_limit - 1). \<forall>j<frequencies_n.
             \<not> fless (candidate_diff env i j) (Fin 558000)"
  shows "best_diff (evaluated env) = Fin 558000" "best_index (evaluated env) = 0"
    "best_frequency (evaluated env) = 0"
proof -
  have no: "\<not> fless (candidate_diff env (fst b) (snd b)) (Fin 558000)" if "b \<in> set scan_order" for b
    using that assms by (simp add: set_scan_order unat_measure_limit frequencies_n_val)
  from evaluated_cases[of env]
  have "best_diff (evaluated env) = Fin 558000 \<and> best_index (evaluated env) = 0 \<and>
     best_frequency (evaluated env) = 0"
  proof (elim disjE exE conjE)
    fix xs b ys
    assume b: "scan_order = xs @ b # ys" "fless (candidate_diff env (fst b) (snd b)) (Fin 558000)"
    have "b \<in> set scan_order" unfolding b(1) by simp
    then have False using no[of b] b(2) by blast
    then show ?thesis ..
  qed simp
  then show "best_diff (evaluated env) = Fin 558000" "best_index (evaluated env) = 0"
    "best_frequency (evaluated env) = 0" by simp_all
qed

lemma no_match_run:
  assumes "\<forall>i<unat (measure_limit - 1). \<forall>j<frequencies_n.
             \<not> fless (candidate_diff env i j) (Fin 558000)"
  shows "index (run env 79) = 0" "opcodes (run env 79) = (replicate MAX_OPCODES NOP)[0 := RET]"
    "best_index (run env 79) = 0" "best_frequency (run env 79) = 0"
    "best_diff (run env 79) = Fin 558000" "desired (run env 79) = frequencies ! 0"
    "index (run env (79 + k)) = 0"
  using no_match_result[OF assms] run_index[of env "79 + k"]
  by (simp_all add: run_79_fields)

text \<open>
  Claim C3, as amended. If no pair examined by the evaluation pass has a difference below
  the seed 558000, \<^verbatim>\<open>best_index\<close> and \<^verbatim>\<open>best_frequency\<close> still hold their initial value
  0, so the return word is moved to slot 0 and stays there, and \<^verbatim>\<open>desired\<close> becomes the
  first entry of the table.
\<close>

theorem no_match_selects_offset_zero:
  "(\<forall>i<unat (measure_limit - 1). \<forall>j<frequencies_n.
      \<not> fless (candidate_diff env i j) (Fin 558000)) \<longrightarrow>
   index (run env 79) = 0 \<and> opcodes (run env 79) = (replicate MAX_OPCODES NOP)[0 := RET] \<and>
   best_index (run env 79) = 0 \<and> best_frequency (run env 79) = 0 \<and>
   best_diff (run env 79) = Fin 558000 \<and> desired (run env 79) = frequencies ! 0 \<and>
   index (run env (79 + k)) = 0"
proof (intro impI)
  assume a: "\<forall>i<unat (measure_limit - 1). \<forall>j<frequencies_n.
      \<not> fless (candidate_diff env i j) (Fin 558000)"
  show "index (run env 79) = 0 \<and> opcodes (run env 79) = (replicate MAX_OPCODES NOP)[0 := RET] \<and>
   best_index (run env 79) = 0 \<and> best_frequency (run env 79) = 0 \<and>
   best_diff (run env 79) = Fin 558000 \<and> desired (run env 79) = frequencies ! 0 \<and>
   index (run env (79 + k)) = 0"
    using no_match_run(1-6)[OF a] no_match_run(7)[OF a, of k] by simp
qed

theorem no_match_selects_offset_zero_witness:
  "\<not> (\<exists>i<unat (measure_limit - 1). \<exists>j<frequencies_n.
      fless (candidate_diff env_fast i j) (Fin 558000)) \<and>
   index (run env_fast 79) = 0 \<and> desired (run env_fast 79) = Fin 519975 \<and>
   index (run env_fast 80) = 0"
  using no_match_selects_offset_zero[of env_fast 1] fast_never_beats_seed
  by (simp add: table_entries)

text \<open>
  Claim C3 fails as stated: when every burst takes 50000 microseconds no pair beats the seed
  (\<^verbatim>\<open>best_diff\<close> is still its initial value), the last offset measured is 78, and the
  return word ends in slot 0, neither in slot 78 nor in slot 79, where it was when the pass
  began.
\<close>

theorem last_offset_kept_counterexample:
  "best_diff (run env_fast 79) = best_diff init \<and> index (run env_fast 78) = 78 \<and>
   index (run env_fast 79) = 0 \<and> opcodes (run env_fast 79) ! 0 = RET \<and>
   opcodes (run env_fast 79) ! 78 = NOP \<and> opcodes (run env_fast 79) ! 79 = NOP"
proof -
  have "index (run env_fast 78) = 78" by (simp add: run_index)
  moreover have "best_diff init = Fin 558000" by (simp add: init_def)
  moreover have "((replicate MAX_OPCODES NOP)[0 := RET]) ! 0 = RET"
    "((replicate MAX_OPCODES NOP)[0 := RET]) ! 78 = NOP"
    "((replicate MAX_OPCODES NOP)[0 := RET]) ! 79 = NOP"
    by (simp_all add: MAX_OPCODES_def)
  ultimately show ?thesis using no_match_run[OF fast_never_beats_seed] by simp
qed

subsection \<open>The seed\<close>

lemma pre_eval_seed: "best_diff (pre_eval env) = Fin 558000"
  using pre_eval_inv[of env] by (simp add: measuring_inv_def)

lemma eval_body_accept:
  "diff (eval_body inp i j s) =
     fabs (fsub (achieved_frequency (periods s) (measurement_value inp i s)) (frequencies ! j))"
  "best_diff (eval_body inp i j s) =
     (if fless (diff (eval_body inp i j s)) (best_diff s) then diff (eval_body inp i j s)
      else best_diff s)"
  "best_index (eval_body inp i j s) =
     (if fless (diff (eval_body inp i j s)) (best_diff s) then of_nat i else best_index s)"
  "best_frequency (eval_body inp i j s) =
     (if fless (diff (eval_body inp i j s)) (best_diff s) then of_nat j else best_frequency s)"
  by (simp_all add: eval_body_freq_diff eval_body_best) (simp add: pair_diff_def)

lemma eval_body_below_seed:
  assumes "best_diff s = Fin 558000 \<or> fless (best_diff s) (Fin 558000)"
  shows "best_diff (eval_body inp i j s) = Fin 558000 \<or>
         fless (best_diff (eval_body inp i j s)) (Fin 558000)"
    "fless (diff (eval_body inp i j s)) (best_diff s) \<longrightarrow>
     fless (diff (eval_body inp i j s)) (Fin 558000)"
  using assms fless_trans[of "diff (eval_body inp i j s)" "best_diff s" "Fin 558000"]
  by (auto simp: eval_body_accept(2))

lemma run_79_below_seed:
  "best_diff (run env 79) = Fin 558000 \<or> fless (best_diff (run env 79)) (Fin 558000)"
  using evaluated_cases[of env] by (auto simp: run_79_fields)

text \<open>
  Claim C2, as amended. The accumulator \<^verbatim>\<open>best_diff\<close> is seeded with the initial value of
  \<^verbatim>\<open>desired\<close>, 558000, which is not an entry of the adjusted table, and it still has that
  value when the evaluation pass starts. The pass records a pair exactly when its
  difference is strictly smaller than the current \<^verbatim>\<open>best_diff\<close>, which then becomes that
  difference; \<^verbatim>\<open>best_diff\<close> never rises above the seed, so a recorded difference is
  strictly smaller than 558000.
\<close>

theorem seed_and_acceptance:
  "best_diff init = desired init \<and> desired init = Fin 558000 \<and>
   run env 79 = handoff (env 78) (eval_pass (env 78) (pre_eval env)) \<and>
   best_diff (pre_eval env) = Fin 558000 \<and>
   diff (eval_body inp i j s) =
     fabs (fsub (achieved_frequency (periods s) (measurement_value inp i s)) (frequencies ! j)) \<and>
   best_diff (eval_body inp i j s) =
     (if fless (diff (eval_body inp i j s)) (best_diff s) then diff (eval_body inp i j s)
      else best_diff s) \<and>
   best_index (eval_body inp i j s) =
     (if fless (diff (eval_body inp i j s)) (best_diff s) then of_nat i else best_index s) \<and>
   best_frequency (eval_body inp i j s) =
     (if fless (diff (eval_body inp i j s)) (best_diff s) then of_nat j else best_frequency s) \<and>
   (best_diff s = Fin 558000 \<or> fless (best_diff s) (Fin 558000) \<longrightarrow>
      (best_diff (eval_body inp i j s) = Fin 558000 \<or>
       fless (best_diff (eval_body inp i j s)) (Fin 558000)) \<and>
      (fless (diff (eval_body inp i j s)) (best_diff s) \<longrightarrow>
       fless (diff (eval_body inp i j s)) (Fin 558000))) \<and>
   (best_diff (run env 79) = Fin 558000 \<or> fless (best_diff (run env 79)) (Fin 558000))"
proof -
  have "best_diff init = desired init" "desired init = Fin 558000" by (simp_all add: init_def)
  then show ?thesis
    using run_79[of env] pre_eval_seed[of env] eval_body_accept[of inp i j s]
      eval_body_below_seed[of s inp i j] run_79_below_seed[of env]
    by (intro conjI impI) blast+
qed

lemma near_seed_first_candidate:
  "diff (eval_body (env_near_seed 78) 0 0 (pre_eval env_near_seed)) = Fin (51642325 / 93)"
proof -
  have "candidate_diff env_near_seed 0 0 =
        Fin \<bar>100000 * 1000000 / real (unat (93000::32 word)) - (frequencies_init ! 0 - 11025)\<bar>"
    by (rule candidate_diff_Fin) (simp_all add: env_near_seed_def timed_env_elapsed)
  then have "candidate_diff env_near_seed 0 0 = Fin (51642325 / 93)"
    by (simp add: frequencies_init_def)
  then show ?thesis
    using pre_eval_candidate[of "(0, 0)" "env_near_seed 78" env_near_seed]
    by (simp add: eval_body_freq_diff)
qed

theorem seed_and_acceptance_witness:
  "best_diff (pre_eval env_near_seed) = Fin 558000 \<and>
   fless (diff (eval_body (env_near_seed 78) 0 0 (pre_eval env_near_seed)))
         (best_diff (pre_eval env_near_seed)) \<and>
   fless (diff (eval_body (env_near_seed 78) 0 0 (pre_eval env_near_seed))) (Fin 558000) \<and>
   best_diff (eval_body (env_near_seed 78) 0 0 (pre_eval env_near_seed)) =
     diff (eval_body (env_near_seed 78) 0 0 (pre_eval env_near_seed))"
proof -
  let ?s = "pre_eval env_near_seed"
  let ?e = "eval_body (env_near_seed 78) 0 0 ?s"
  note T = seed_and_acceptance[of env_near_seed "env_near_seed 78" 0 0 ?s]
  have seed: "best_diff ?s = Fin 558000" using T by blast
  have lt: "fless (diff ?e) (best_diff ?s)" by (simp add: seed near_seed_first_candidate)
  have "fless (diff ?e) (Fin 558000)" using T seed lt by blast
  moreover have "best_diff ?e = diff ?e" using T lt by simp
  ultimately show ?thesis using seed lt by blast
qed

text \<open>
  Claim C2 fails as stated: the seed is 558000, while the first entry of the adjusted
  table is 519975 and the adjusted entry for 558000 Hz is 546975; 558000 is no entry of
  the adjusted table. When every burst takes 93000 microseconds, the first pair examined
  (offset 0, target 0) is recorded although its difference is larger than both.
\<close>

theorem seed_counterexample:
  "best_diff init = Fin 558000 \<and> frequencies ! 0 = Fin 519975 \<and>
   frequencies ! 3 = Fin 546975 \<and> Fin 558000 \<notin> set frequencies \<and>
   best_diff (pre_eval env_near_seed) = Fin 558000 \<and>
   best_diff (eval_body (env_near_seed 78) 0 0 (pre_eval env_near_seed)) =
     diff (eval_body (env_near_seed 78) 0 0 (pre_eval env_near_seed)) \<and>
   fless (Fin 546975) (diff (eval_body (env_near_seed 78) 0 0 (pre_eval env_near_seed))) \<and>
   fless (diff (eval_body (env_near_seed 78) 0 0 (pre_eval env_near_seed))) (Fin 558000)"
proof -
  have "Fin 558000 \<notin> set frequencies"
    by (simp add: frequencies_def frequencies_init_def u2f_sample_rate)
  moreover have "best_diff init = Fin 558000" by (simp add: init_def)
  ultimately show ?thesis
    by (simp add: table_entries pre_eval_seed eval_body_accept(2) near_seed_first_candidate)
qed

subsection \<open>The pair selected\<close>















end
